theory Spec2Isabelle
  imports Complex_Main "HOL-Library.Word"
begin

section \<open>JavaScript values used by the library\<close>

text \<open>
  A JavaScript string is a sequence of 16-bit code units. The Persian digits
  U+06F0 .. U+06F9 lie in the basic plane, so each of them is one code unit
  (1776 .. 1785); the ASCII digits are 48 .. 57.
\<close>

type_synonym jsstring = "16 word list"

definition ascii :: "string \<Rightarrow> jsstring" where
  "ascii s = map (\<lambda>c. of_nat (of_char c)) s"

text \<open>\<^verbatim>\<open>s.charCodeAt(i)\<close>: the code unit at index \<open>i\<close>, NaN (here \<open>None\<close>) out of range.\<close>

fun charCodeAt :: "jsstring \<Rightarrow> nat \<Rightarrow> int option" where
  "charCodeAt [] i = None"
| "charCodeAt (c # cs) 0 = Some (uint c)"
| "charCodeAt (c # cs) (Suc i) = charCodeAt cs i"

text \<open>
  \<^verbatim>\<open>String.fromCharCode(n)\<close>: one code unit, the argument reduced modulo \<open>2^16\<close>;
  NaN is converted to 0.
\<close>

definition fromCharCode :: "int option \<Rightarrow> jsstring" where
  "fromCharCode n = (case n of None \<Rightarrow> [0] | Some k \<Rightarrow> [word_of_int k])"

text \<open>The character class of the regular expression in \<open>convertToLatinDigits\<close>: U+06F0 to U+06F9.\<close>

definition isPersianDigit :: "16 word \<Rightarrow> bool" where
  "isPersianDigit c = (1776 \<le> c \<and> c \<le> 1785)"

text \<open>
  \<^verbatim>\<open>str.replace(/[class]/g, f)\<close> for a pattern that is a single character class:
  scanning from the left, every code unit of the class is a match and is replaced
  by the string that the callback returns for it; the other code units are kept.
\<close>

fun replace_class :: "(16 word \<Rightarrow> bool) \<Rightarrow> (jsstring \<Rightarrow> jsstring) \<Rightarrow> jsstring \<Rightarrow> jsstring" where
  "replace_class p f [] = []"
| "replace_class p f (c # cs) = (if p c then f [c] else [c]) @ replace_class p f cs"

definition convertToLatinDigits :: "jsstring \<Rightarrow> jsstring" where
  "convertToLatinDigits str =
     replace_class isPersianDigit
       (\<lambda>match. fromCharCode (map_option (\<lambda>k. k - 1728) (charCodeAt match 0))) str"

text \<open>What one code unit becomes under \<open>convertToLatinDigits\<close>.\<close>

definition latinDigit :: "16 word \<Rightarrow> 16 word" where
  "latinDigit c = (if isPersianDigit c then word_of_int (uint c - 1728) else c)"

text \<open>
  The remainder operator \<^verbatim>\<open>%\<close> of JavaScript truncates: the result has the sign of
  the dividend. (The divisors in this library are the constants 33, 4 and 365.)
\<close>

definition js_rem :: "int \<Rightarrow> int \<Rightarrow> int" where
  "js_rem a b = sgn a * (\<bar>a\<bar> mod \<bar>b\<bar>)"

section \<open>Leap years and month lengths\<close>

definition isShamsiLeapYear :: "int \<Rightarrow> bool" where
  "isShamsiLeapYear year =
     (js_rem year 33 = 0 \<or> js_rem year 33 \<in> set [4, 8, 12, 16, 20, 24, 28])"

definition regularYearDaysInMonths :: "int list" where
  "regularYearDaysInMonths = [31, 31, 31, 30, 31, 30, 31, 31, 30, 31, 30, 30]"

definition leapYearDaysInMonths :: "int list" where
  "leapYearDaysInMonths = [31, 31, 31, 30, 31, 30, 31, 31, 30, 31, 30, 29]"

text \<open>Reading an array at an index: \<^verbatim>\<open>undefined\<close> (here \<open>None\<close>) out of range.\<close>

definition at_index :: "'a list \<Rightarrow> int \<Rightarrow> 'a option" where
  "at_index xs i = (if 0 \<le> i \<and> i < int (length xs) then Some (xs ! nat i) else None)"

text \<open>\<open>getShamsiMonthDays\<close> returns \<^verbatim>\<open>null\<close> (here \<open>None\<close>) for a month outside 1 .. 12.\<close>

definition getShamsiMonthDays :: "int \<Rightarrow> int \<Rightarrow> int option" where
  "getShamsiMonthDays month year =
     (if month < 1 \<or> month > 12 then None
      else if isShamsiLeapYear year then at_index leapYearDaysInMonths (month - 1)
      else at_index regularYearDaysInMonths (month - 1))"

definition getShamsiYearDays :: "int \<Rightarrow> int" where
  "getShamsiYearDays year = (if isShamsiLeapYear year then 366 else 365)"


text \<open>
  The sum that adds the month lengths of one year with \<open>getShamsiMonthDays\<close>
  (\<^verbatim>\<open>null\<close> counts as 0 in a JavaScript sum).
\<close>

definition monthDaysSum :: "int \<Rightarrow> int" where
  "monthDaysSum year =
     sum_list (map (\<lambda>m. case getShamsiMonthDays m year of None \<Rightarrow> 0 | Some n \<Rightarrow> n) [1 ..< 13])"

text \<open>
  The invariant of a Persian date in the data model of the specification:
  the month lies in 1 .. 12 and the day in 1 .. length of that month.
\<close>

definition validShamsiDate :: "int \<Rightarrow> int \<Rightarrow> int \<Rightarrow> bool" where
  "validShamsiDate year month day =
     (case getShamsiMonthDays month year of None \<Rightarrow> False | Some n \<Rightarrow> 1 \<le> day \<and> day \<le> n)"

section \<open>Numbers\<close>

text \<open>
  The numbers of this library are integers or NaN; NaN is \<open>None\<close>. Integers stand
  for the doubles that represent them exactly (absolute value below \<open>2^53\<close>).
  Quotients are taken in the reals before \<^verbatim>\<open>Math.floor\<close> and \<^verbatim>\<open>Math.ceil\<close>
  are applied, so the rounding of a double quotient is not modelled.
\<close>

type_synonym jsnum = "int option"

definition num_add :: "jsnum \<Rightarrow> jsnum \<Rightarrow> jsnum" where
  "num_add a b = (case a of None \<Rightarrow> None | Some x \<Rightarrow> map_option (\<lambda>y. x + y) b)"

definition num_sub :: "jsnum \<Rightarrow> jsnum \<Rightarrow> jsnum" where
  "num_sub a b = (case a of None \<Rightarrow> None | Some x \<Rightarrow> map_option (\<lambda>y. x - y) b)"

definition num_mul :: "jsnum \<Rightarrow> jsnum \<Rightarrow> jsnum" where
  "num_mul a b = (case a of None \<Rightarrow> None | Some x \<Rightarrow> map_option (\<lambda>y. x * y) b)"

text \<open>\<^verbatim>\<open>a < b\<close> is false when an operand is NaN.\<close>

definition num_less :: "jsnum \<Rightarrow> jsnum \<Rightarrow> bool" where
  "num_less a b = (case (a, b) of (Some x, Some y) \<Rightarrow> x < y | _ \<Rightarrow> False)"

text \<open>\<^verbatim>\<open>Math.floor(a / c)\<close> and \<^verbatim>\<open>Math.ceil(a / c)\<close> for a constant \<open>c\<close>.\<close>

definition floor_quot :: "jsnum \<Rightarrow> real \<Rightarrow> jsnum" where
  "floor_quot a c = map_option (\<lambda>x. \<lfloor>real_of_int x / c\<rfloor>) a"

definition ceil_quot :: "jsnum \<Rightarrow> real \<Rightarrow> jsnum" where
  "ceil_quot a c = map_option (\<lambda>x. \<lceil>real_of_int x / c\<rceil>) a"

text \<open>Decimal digits of a natural number, most significant first.\<close>

fun natToString :: "nat \<Rightarrow> jsstring" where
  "natToString n =
     (if n < 10 then [48 + of_nat n] else natToString (n div 10) @ [48 + of_nat (n mod 10)])"

declare natToString.simps [simp del]

text \<open>
  Number to string (\<^verbatim>\<open>`${n}`\<close>, \<^verbatim>\<open>n.toString()\<close>, \<^verbatim>\<open>String(n)\<close>) for NaN and
  for integers below \<open>10^21\<close> in absolute value, which print in decimal.
\<close>

definition Number_toString :: "jsnum \<Rightarrow> jsstring" where
  "Number_toString n =
     (case n of None \<Rightarrow> ascii ''NaN''
      | Some k \<Rightarrow> if k < 0 then ascii ''-'' @ natToString (nat (- k)) else natToString (nat k))"

text \<open>The helper \<open>padZero\<close> of the source.\<close>

definition padZero :: "jsnum \<Rightarrow> jsstring" where
  "padZero num = (if num_less num (Some 10) then ascii ''0'' @ Number_toString num else Number_toString num)"

text \<open>\<^verbatim>\<open>s.padStart(2, '0')\<close>.\<close>

definition padStart2 :: "jsstring \<Rightarrow> jsstring" where
  "padStart2 s = replicate (2 - length s) 48 @ s"

definition isAsciiDigit :: "16 word \<Rightarrow> bool" where
  "isAsciiDigit c = (48 \<le> c \<and> c \<le> 57)"

text \<open>
  \<^verbatim>\<open>Number(s)\<close> for a non-empty string of decimal digits. The other forms that
  \<^verbatim>\<open>Number\<close> accepts (sign, fraction, exponent, radix prefix, white space, the empty
  string) do not occur in a date \<^verbatim>\<open>YYYY/MM/DD\<close> and are not modelled:
  \<open>None\<close> stands for them as well as for NaN.
\<close>

definition Number_of_digits :: "jsstring \<Rightarrow> int option" where
  "Number_of_digits s =
     (if s \<noteq> [] \<and> list_all isAsciiDigit s
      then Some (foldl (\<lambda>a c. 10 * a + (uint c - 48)) 0 s) else None)"

text \<open>\<^verbatim>\<open>s.split(sep)\<close> for a separator of one code unit.\<close>

fun split_on :: "16 word \<Rightarrow> jsstring \<Rightarrow> jsstring list" where
  "split_on sep [] = [[]]"
| "split_on sep (c # cs) =
     (if c = sep then [] # split_on sep cs
      else (case split_on sep cs of [] \<Rightarrow> [[c]] | p # ps \<Rightarrow> (c # p) # ps))"

section \<open>The Date object\<close>

text \<open>
  A Date holds a time value: the milliseconds since 1970-01-01T00:00:00Z, or NaN
  (an invalid Date). The definitions follow the ECMAScript specification (Day,
  DaysInYear, DayFromYear, YearFromTime, MonthFromTime, DateFromTime, MakeDay,
  TimeClip) on the proleptic Gregorian calendar. The local time zone of the host is
  taken to be UTC, without daylight saving: local time and UTC coincide.
\<close>

definition msPerDay :: int where
  "msPerDay = 86400000"

definition Day :: "int \<Rightarrow> int" where
  "Day t = t div msPerDay"

definition TimeWithinDay :: "int \<Rightarrow> int" where
  "TimeWithinDay t = t mod msPerDay"

definition DaysInYear :: "int \<Rightarrow> int" where
  "DaysInYear y =
     (if y mod 4 \<noteq> 0 then 365 else if y mod 100 \<noteq> 0 then 366
      else if y mod 400 \<noteq> 0 then 365 else 366)"

definition DayFromYear :: "int \<Rightarrow> int" where
  "DayFromYear y =
     365 * (y - 1970) + (y - 1969) div 4 - (y - 1901) div 100 + (y - 1601) div 400"

text \<open>
  The year of a day number: the largest \<open>y\<close> with \<open>DayFromYear y \<le> d\<close>, computed
  from an estimate that is off by at most one (lemma \<open>YearFromDay_bounds\<close>).
\<close>

definition YearFromDay :: "int \<Rightarrow> int" where
  "YearFromDay d =
     (let y = 1970 + (400 * d) div 146097
      in if d < DayFromYear y then y - 1 else if DayFromYear (y + 1) \<le> d then y + 1 else y)"

definition InLeapYear :: "int \<Rightarrow> int" where
  "InLeapYear d = (if DaysInYear (YearFromDay d) = 366 then 1 else 0)"

definition DayWithinYear :: "int \<Rightarrow> int" where
  "DayWithinYear d = d - DayFromYear (YearFromDay d)"

text \<open>The day within the year on which each month starts; \<open>l\<close> is 1 in a leap year.\<close>

definition monthStarts :: "int \<Rightarrow> int list" where
  "monthStarts l =
     [0, 31, 59 + l, 90 + l, 120 + l, 151 + l, 181 + l, 212 + l, 243 + l, 273 + l,
      304 + l, 334 + l]"

definition MonthFromDay :: "int \<Rightarrow> int" where
  "MonthFromDay d =
     int (length (filter (\<lambda>s. s \<le> DayWithinYear d) (monthStarts (InLeapYear d)))) - 1"

definition DateFromDay :: "int \<Rightarrow> int" where
  "DateFromDay d =
     DayWithinYear d - monthStarts (InLeapYear d) ! nat (MonthFromDay d) + 1"

text \<open>
  MakeDay: the month index may lie outside 0 .. 11 and the date outside the month;
  both carry over.
\<close>

definition MakeDay :: "int \<Rightarrow> int \<Rightarrow> int \<Rightarrow> int" where
  "MakeDay year month date =
     (let ym = year + month div 12; mn = month mod 12
      in DayFromYear ym + monthStarts (if DaysInYear ym = 366 then 1 else 0) ! nat mn + date - 1)"

definition TimeClip :: "int \<Rightarrow> int option" where
  "TimeClip t = (if \<bar>t\<bar> \<le> 8640000000000000 then Some t else None)"

type_synonym date = "int option"

text \<open>\<^verbatim>\<open>new Date(year, monthIndex, day)\<close>: a year in 0 .. 99 means 1900 + year.\<close>

definition Date_of_fields :: "int \<Rightarrow> int \<Rightarrow> int \<Rightarrow> date" where
  "Date_of_fields year monthIndex day =
     TimeClip (MakeDay (if 0 \<le> year \<and> year \<le> 99 then 1900 + year else year) monthIndex day
               * msPerDay)"

text \<open>\<^verbatim>\<open>new Date(value)\<close> for a number.\<close>

definition Date_of_number :: "jsnum \<Rightarrow> date" where
  "Date_of_number v = (case v of None \<Rightarrow> None | Some t \<Rightarrow> TimeClip t)"

definition getTime :: "date \<Rightarrow> jsnum" where
  "getTime d = d"

definition getFullYear :: "date \<Rightarrow> jsnum" where
  "getFullYear d = map_option (\<lambda>t. YearFromDay (Day t)) d"

definition getMonth :: "date \<Rightarrow> jsnum" where
  "getMonth d = map_option (\<lambda>t. MonthFromDay (Day t)) d"

definition getDate :: "date \<Rightarrow> jsnum" where
  "getDate d = map_option (\<lambda>t. DateFromDay (Day t)) d"

text \<open>\<^verbatim>\<open>date.setDate(dt)\<close>, returning the updated Date.\<close>

definition setDate :: "date \<Rightarrow> jsnum \<Rightarrow> date" where
  "setDate d dt =
     (case (d, dt) of
        (Some t, Some n) \<Rightarrow>
          TimeClip (MakeDay (YearFromDay (Day t)) (MonthFromDay (Day t)) n * msPerDay
                    + TimeWithinDay t)
      | _ \<Rightarrow> None)"

text \<open>
  \<^verbatim>\<open>new Date(s)\<close> for a string in the date-only form \<^verbatim>\<open>YYYY-MM-DD\<close> of the ISO
  format, with a four-digit year and a day that exists in the month: midnight UTC of
  that day. What other strings give is left to the implementation by ECMAScript;
  \<open>None\<close> stands for all of them here.
\<close>

definition Date_parse :: "jsstring \<Rightarrow> date" where
  "Date_parse s =
     (if length s = 10 \<and> s ! 4 = 45 \<and> s ! 7 = 45 then
        (case (Number_of_digits (take 4 s), Number_of_digits (take 2 (drop 5 s)),
               Number_of_digits (drop 8 s)) of
           (Some y, Some m, Some d) \<Rightarrow>
             if 1 \<le> m \<and> m \<le> 12 \<and> 1 \<le> d \<and> MakeDay y (m - 1) d < MakeDay y m 1
             then TimeClip (MakeDay y (m - 1) d * msPerDay) else None
         | _ \<Rightarrow> None)
      else None)"

section \<open>Conversions\<close>

text \<open>
  The loop \<^verbatim>\<open>for (let i = 0; i < month - 1; i++) acc += monthsInYear[i]\<close> of
  \<open>convertShamsiToGregorian\<close> and \<open>convertToGregorianDate\<close>. Adding
  \<^verbatim>\<open>undefined\<close>, read beyond the end of the table, gives NaN.
\<close>

function months_loop :: "int list \<Rightarrow> int \<Rightarrow> int \<Rightarrow> jsnum \<Rightarrow> jsnum" where
  "months_loop monthsInYear month i acc =
     (if i < month - 1
      then months_loop monthsInYear month (i + 1) (num_add acc (at_index monthsInYear i))
      else acc)"
  by pat_completeness auto
termination
  by (relation "measure (\<lambda>(monthsInYear, month, i, acc). nat (month - 1 - i))") auto

declare months_loop.simps [simp del]

text \<open>The Date that \<open>convertShamsiToGregorian\<close> builds (\<open>gregorianDate\<close> in the source).\<close>

definition shamsiToGregorianDate :: "int \<Rightarrow> int \<Rightarrow> int \<Rightarrow> date" where
  "shamsiToGregorianDate year month day =
     (let startDate = Date_of_fields 621 2 21;
          monthsInYear =
            (if isShamsiLeapYear year then leapYearDaysInMonths else regularYearDaysInMonths);
          daysInPersianYear = num_add (months_loop monthsInYear month 0 (Some 0)) (Some (day - 1));
          totalDays =
            num_add (Some ((year - 1) * 365 + \<lfloor>real_of_int (year - 1) / 33\<rfloor>)) daysInPersianYear
      in Date_of_number (num_add (getTime startDate) (num_mul totalDays (Some (24 * 60 * 60 * 1000)))))"

definition convertShamsiToGregorian :: "int \<Rightarrow> int \<Rightarrow> int \<Rightarrow> jsstring" where
  "convertShamsiToGregorian year month day =
     (let gregorianDate = shamsiToGregorianDate year month day;
          gregorianYear = getFullYear gregorianDate;
          gregorianMonth = num_add (getMonth gregorianDate) (Some 1);
          gregorianDay = getDate gregorianDate
      in Number_toString gregorianYear @ ascii ''-'' @ padZero gregorianMonth @ ascii ''-''
         @ padZero gregorianDay)"

text \<open>
  The search loop of \<open>convertGregorianToShamsi\<close>: at the first month whose length
  exceeds the remaining days it sets month and day and stops; the state is
  (\<open>persianMonth\<close>, \<open>persianDay\<close>).
\<close>

function find_month :: "int list \<Rightarrow> int \<Rightarrow> jsnum \<Rightarrow> int \<times> jsnum \<Rightarrow> int \<times> jsnum" where
  "find_month monthsInYear i daysInPersianYear st =
     (if i < 12 then
        (if num_less daysInPersianYear (at_index monthsInYear i)
         then (i + 1, num_add daysInPersianYear (Some 1))
         else find_month monthsInYear (i + 1)
                (num_sub daysInPersianYear (at_index monthsInYear i)) st)
      else st)"
  by pat_completeness auto
termination
  by (relation "measure (\<lambda>(monthsInYear, i, d, st). nat (12 - i))") auto

declare find_month.simps [simp del]

definition convertGregorianToShamsi :: "int \<Rightarrow> int \<Rightarrow> int \<Rightarrow> jsstring" where
  "convertGregorianToShamsi year month day =
     (let gregorianDate = Date_of_fields year (month - 1) day;
          startDate = Date_of_fields 621 2 21;
          daysDifference =
            floor_quot (num_sub (getTime gregorianDate) (getTime startDate)) (1000 * 60 * 60 * 24);
          persianYear = num_add (Some 621) (floor_quot daysDifference 365.2422);
          daysInPersianYear = map_option (\<lambda>d. js_rem d 365) daysDifference;
          monthsInYear =
            (if (case persianYear of None \<Rightarrow> False | Some y \<Rightarrow> isShamsiLeapYear y)
             then leapYearDaysInMonths else regularYearDaysInMonths);
          (persianMonth, persianDay) = find_month monthsInYear 0 daysInPersianYear (1, Some 0)
      in Number_toString persianYear @ ascii ''/'' @ padZero (Some persianMonth) @ ascii ''/''
         @ padZero persianDay)"

text \<open>
  \<open>addShamsiDays\<close> passes the string of \<open>convertShamsiToGregorian\<close> to
  \<^verbatim>\<open>new Date\<close>. \<open>None\<close> is a run that leaves the modelled part of Date: the
  string is not of the form \<^verbatim>\<open>YYYY-MM-DD\<close> with a four-digit year, or the Date
  becomes invalid.
\<close>

definition addShamsiDays :: "int \<Rightarrow> int \<Rightarrow> int \<Rightarrow> int \<Rightarrow> jsstring option" where
  "addShamsiDays year month day daysToAdd =
     (let gregorianDate = convertShamsiToGregorian year month day;
          date0 = Date_parse gregorianDate;
          date = setDate date0 (num_add (getDate date0) (Some daysToAdd))
      in case (getFullYear date, getMonth date, getDate date) of
           (Some y, Some m, Some d) \<Rightarrow> Some (convertGregorianToShamsi y (m + 1) d)
         | _ \<Rightarrow> None)"

definition subtractShamsiDays :: "int \<Rightarrow> int \<Rightarrow> int \<Rightarrow> int \<Rightarrow> jsstring option" where
  "subtractShamsiDays year month day daysToSubtract =
     addShamsiDays year month day (- daysToSubtract)"

text \<open>
  The Date that the string-based \<open>convertToGregorianDate\<close> builds from the three
  numbers it parsed (\<open>gregorianDate\<close> in the source).
\<close>

definition legacyGregorianDate :: "int \<Rightarrow> int \<Rightarrow> int \<Rightarrow> date" where
  "legacyGregorianDate year month day =
     (let persianNewYear = Date_of_fields year 2 21;
          isLeapYear = (js_rem year 4 = 3);
          daysInPersianMonth =
            (if isLeapYear then leapYearDaysInMonths else regularYearDaysInMonths);
          totalDays = num_add (months_loop daysInPersianMonth month 0 (Some 0)) (Some day);
          gregorianStart =
            (case getFullYear persianNewYear of None \<Rightarrow> None
             | Some y \<Rightarrow> Date_of_fields y 2 21)
      in Date_of_number
           (num_add (getTime gregorianStart) (num_mul totalDays (Some (24 * 60 * 60 * 1000)))))"

text \<open>
  \<open>convertToGregorianDate\<close>: \<open>None\<close> when the string does not consist of at least
  three pieces of decimal digits separated by \<^verbatim>\<open>/\<close> (see \<open>Number_of_digits\<close>).
\<close>

definition convertToGregorianDate :: "jsstring \<Rightarrow> jsstring option" where
  "convertToGregorianDate persianDate =
     (case map Number_of_digits (split_on 47 persianDate) of
        Some year # Some month # Some day # rest \<Rightarrow>
          (let gregorianDate = legacyGregorianDate year month day;
               gYear = getFullYear gregorianDate;
               gMonth = padStart2 (Number_toString (num_add (getMonth gregorianDate) (Some 1)));
               gDay = padStart2 (Number_toString (getDate gregorianDate))
           in Some (gMonth @ ascii ''/'' @ gDay @ ascii ''/'' @ Number_toString gYear))
      | _ \<Rightarrow> None)"

text \<open>The calendar date that a Date shows: year, month (1 .. 12) and day of the month.\<close>

definition dateFields :: "date \<Rightarrow> (int \<times> int \<times> int) option" where
  "dateFields d =
     (case (getFullYear d, getMonth d, getDate d) of
        (Some y, Some m, Some dd) \<Rightarrow> Some (y, m + 1, dd)
      | _ \<Rightarrow> None)"

section \<open>Week number\<close>

text \<open>
  The double nearest to an integer below \<open>2^54\<close> in absolute value. Up to
  \<open>2^53\<close> every integer is a double; beyond, the doubles are the even integers,
  and an odd integer lies half way between two of them and goes to the one that is
  a multiple of 4 (round to nearest, ties to even).
\<close>

definition double_of_int :: "int \<Rightarrow> int" where
  "double_of_int x =
     (if \<bar>x\<bar> \<le> 2 ^ 53 then x else if even x then x
      else if x mod 4 = 1 then x - 1 else x + 1)"

text \<open>
  The difference \<^verbatim>\<open>date.getTime() - startDate.getTime()\<close> of two time values. A
  time value is at most \<open>8.64 * 10^15\<close> in absolute value, so the exact difference
  lies below \<open>2^54\<close> and the double that the subtraction returns is its
  \<open>double_of_int\<close>.
\<close>

definition time_diff :: "jsnum \<Rightarrow> jsnum \<Rightarrow> jsnum" where
  "time_diff a b = map_option double_of_int (num_sub a b)"

text \<open>
  The number \<open>weekNumber\<close> that \<open>getShamsiWeekNumber\<close> computes, and the string
  it returns. The two quotients are rounded to doubles as well, which changes neither
  the floor nor the ceiling: a quotient by 86400000 of such a difference that is not
  an integer is at least \<open>1 / 86400000\<close> away from the integers (\<open>2 / 86400000\<close>
  beyond \<open>2^53\<close>), more than half the distance between neighbouring doubles of its
  size, and a quotient by 7 at least \<open>1 / 7\<close>.
\<close>

definition weekNumber :: "date \<Rightarrow> date \<Rightarrow> jsnum" where
  "weekNumber date startDate =
     (let daysSinceStartOfYear =
            floor_quot (time_diff (getTime date) (getTime startDate)) (1000 * 60 * 60 * 24)
      in ceil_quot daysSinceStartOfYear 7)"

definition getShamsiWeekNumber :: "date \<Rightarrow> date \<Rightarrow> jsstring" where
  "getShamsiWeekNumber date startDate =
     convertToLatinDigits (Number_toString (weekNumber date startDate))"

section \<open>The Persian to Gregorian conversion as the specification words it\<close>

text \<open>
  Section 4.4 of the specification: the zero-based day of the year is the sum of
  the lengths of the months before \<open>month\<close> plus \<open>day - 1\<close>; the elapsed days
  are \<open>(year - 1) * 365 + floor ((year - 1) / 33)\<close> plus that; they are added to
  the anchor 621-03-21.
\<close>

definition spec_dayOfYear :: "int \<Rightarrow> int \<Rightarrow> int \<Rightarrow> int" where
  "spec_dayOfYear year month day =
     sum_list (take (nat (month - 1))
                 (if isShamsiLeapYear year then leapYearDaysInMonths else regularYearDaysInMonths))
     + (day - 1)"

definition spec_elapsedDays :: "int \<Rightarrow> int \<Rightarrow> int \<Rightarrow> int" where
  "spec_elapsedDays year month day =
     (year - 1) * 365 + (year - 1) div 33 + spec_dayOfYear year month day"

definition spec_persianToGregorian :: "int \<Rightarrow> int \<Rightarrow> int \<Rightarrow> date" where
  "spec_persianToGregorian year month day =
     TimeClip ((MakeDay 621 2 21 + spec_elapsedDays year month day) * msPerDay)"

section \<open>Digit transliteration\<close>

lemma persian_digit_uint: "isPersianDigit c = (1776 \<le> uint c \<and> uint c \<le> 1785)"
  by (simp add: isPersianDigit_def word_le_def)

lemma latin_of_persian_uint:
  assumes "isPersianDigit c"
  shows "uint (word_of_int (uint c - 1728) :: 16 word) = uint c - 1728"
proof -
  from assms have r: "1776 \<le> uint c" "uint c \<le> 1785" by (simp_all add: persian_digit_uint)
  then have "(uint c - 1728) mod 2 ^ 16 = uint c - 1728" by simp
  then show ?thesis by (simp add: uint_word_ariths)
qed

lemma latin_not_persian:
  assumes "isPersianDigit c"
  shows "\<not> isPersianDigit (word_of_int (uint c - 1728))"
proof -
  from assms have r: "1776 \<le> uint c" "uint c \<le> 1785" by (simp_all add: persian_digit_uint)
  have "uint (word_of_int (uint c - 1728) :: 16 word) = uint c - 1728"
    by (rule latin_of_persian_uint [OF assms])
  with r show ?thesis by (simp add: persian_digit_uint)
qed

lemma convertToLatinDigits_map: "convertToLatinDigits s = map latinDigit s"
  by (induction s) (simp_all add: convertToLatinDigits_def fromCharCode_def latinDigit_def)

lemma latinDigit_idem: "latinDigit (latinDigit c) = latinDigit c"
  using latin_not_persian [of c] by (simp add: latinDigit_def)

text \<open>
  Claim C9. \<open>convertToLatinDigits\<close> keeps the length of the string; at every
  position a Persian digit (code unit 1776 .. 1785) becomes the code unit 1728
  lower, which is an ASCII digit (48 .. 57), and every other code unit is
  unchanged; the result holds no Persian digit, and converting twice gives the
  same as converting once.
\<close>

theorem convertToLatinDigits_idempotent:
  "length (convertToLatinDigits s) = length s \<and>
   (\<forall>i < length s.
      if isPersianDigit (s ! i)
      then uint (convertToLatinDigits s ! i) = uint (s ! i) - 1728 \<and>
           48 \<le> uint (convertToLatinDigits s ! i) \<and> uint (convertToLatinDigits s ! i) \<le> 57
      else convertToLatinDigits s ! i = s ! i) \<and>
   (\<forall>c \<in> set (convertToLatinDigits s). \<not> isPersianDigit c) \<and>
   convertToLatinDigits (convertToLatinDigits s) = convertToLatinDigits s"
proof (intro conjI)
  show "length (convertToLatinDigits s) = length s"
    by (simp add: convertToLatinDigits_map)
next
  show "\<forall>i < length s.
      if isPersianDigit (s ! i)
      then uint (convertToLatinDigits s ! i) = uint (s ! i) - 1728 \<and>
           48 \<le> uint (convertToLatinDigits s ! i) \<and> uint (convertToLatinDigits s ! i) \<le> 57
      else convertToLatinDigits s ! i = s ! i"
  proof (intro allI impI)
    fix i assume i: "i < length s"
    show "if isPersianDigit (s ! i)
      then uint (convertToLatinDigits s ! i) = uint (s ! i) - 1728 \<and>
           48 \<le> uint (convertToLatinDigits s ! i) \<and> uint (convertToLatinDigits s ! i) \<le> 57
      else convertToLatinDigits s ! i = s ! i"
    proof (cases "isPersianDigit (s ! i)")
      case True
      then have "1776 \<le> uint (s ! i)" "uint (s ! i) \<le> 1785"
        by (simp_all add: persian_digit_uint)
      with True i latin_of_persian_uint [OF True] show ?thesis
        by (simp add: convertToLatinDigits_map latinDigit_def)
    next
      case False
      with i show ?thesis by (simp add: convertToLatinDigits_map latinDigit_def)
    qed
  qed
next
  show "\<forall>c \<in> set (convertToLatinDigits s). \<not> isPersianDigit c"
    using latin_not_persian by (auto simp add: convertToLatinDigits_map latinDigit_def)
next
  show "convertToLatinDigits (convertToLatinDigits s) = convertToLatinDigits s"
    by (simp add: convertToLatinDigits_map latinDigit_idem)
qed

theorem convertToLatinDigits_idempotent_witness:
  "convertToLatinDigits [1776, 65, 1785] = [48, 65, 57] \<and>
   convertToLatinDigits [48, 65, 57] = [48, 65, 57]"
  using convertToLatinDigits_idempotent [of "[1776, 65, 1785]"]
  by (simp add: convertToLatinDigits_def fromCharCode_def isPersianDigit_def)

section \<open>The leap-year rule\<close>

lemma js_rem_nonneg: "0 \<le> a \<Longrightarrow> js_rem a 33 = a mod 33"
  by (simp add: js_rem_def sgn_if)

lemma js_rem_neg: "a < 0 \<Longrightarrow> js_rem a 33 = - ((- a) mod 33)"
  by (simp add: js_rem_def sgn_if)

lemma leap_nonneg:
  "0 \<le> year \<Longrightarrow> isShamsiLeapYear year = (year mod 33 \<in> {0, 4, 8, 12, 16, 20, 24, 28})"
  by (auto simp add: isShamsiLeapYear_def js_rem_nonneg)

lemma leap_neg: "year < 0 \<Longrightarrow> isShamsiLeapYear year = (year mod 33 = 0)"
proof -
  assume neg: "year < 0"
  have nn: "0 \<le> (- year) mod 33" by simp
  have z: "((- year) mod 33 = 0) = (year mod 33 = 0)"
    by presburger
  show ?thesis using nn z
    by (auto simp add: isShamsiLeapYear_def js_rem_neg [OF neg])
qed

text \<open>
  Claim C1, as stated, fails at the year -29: its residue modulo 33 is 4, yet
  \<^verbatim>\<open>-29 % 33\<close> is -29 in JavaScript and the function returns false.
\<close>

theorem isShamsiLeapYear_mod_counterexample:
  "\<not> (isShamsiLeapYear (- 29) \<longleftrightarrow>
        ((- 29 :: int) mod 33 = 0 \<or> (- 29 :: int) mod 33 \<in> {4, 8, 12, 16, 20, 24, 28}))"
  by (simp add: isShamsiLeapYear_def js_rem_def)

text \<open>
  Claim C1, amended. For a year that is not negative \<open>isShamsiLeapYear\<close> is true
  exactly when the year modulo 33 is 0 or one of 4, 8, 12, 16, 20, 24, 28; for a
  negative year it is true exactly when the year is a multiple of 33. The function
  is total: every integer is accepted.
\<close>

theorem isShamsiLeapYear_rule:
  "(0 \<le> year \<longrightarrow>
      isShamsiLeapYear year = (year mod 33 = 0 \<or> year mod 33 \<in> {4, 8, 12, 16, 20, 24, 28}))
   \<and> (year < 0 \<longrightarrow> isShamsiLeapYear year = (year mod 33 = 0))"
  by (auto simp add: leap_nonneg leap_neg)

theorem isShamsiLeapYear_rule_witness:
  "(0 :: int) \<le> 1390 \<and> isShamsiLeapYear 1390 \<and> (- 66 :: int) < 0 \<and> isShamsiLeapYear (- 66)"
  using isShamsiLeapYear_rule [of 1390] isShamsiLeapYear_rule [of "- 66"] by simp

text \<open>
  Claim C3 at the year 1403: \<open>isShamsiLeapYear\<close> returns false, since the
  remainder of 1403 by 33 is 17, which is not in the set that the function tests.
  The leap test of \<open>convertToGregorianDate\<close> in the same file,
  \<^verbatim>\<open>year % 4 === 3\<close>, takes 1403 for a leap year, and \<open>isShamsiLeapYear\<close> returns
  true for 1402, for which the README of the library shows false.
\<close>

theorem isShamsiLeapYear_1403:
  "js_rem 1403 33 = 17 \<and> isShamsiLeapYear 1403 = False \<and> js_rem 1403 4 = 3 \<and>
   isShamsiLeapYear 1402 = True"
  by (simp add: isShamsiLeapYear_def js_rem_def)

text \<open>
  Claim C8, as stated, fails at the year -29: it is not a leap year, and the year
  4, 33 years later, is one.
\<close>

theorem isShamsiLeapYear_period_counterexample:
  "isShamsiLeapYear (- 29) \<noteq> isShamsiLeapYear (- 29 + 33)"
  by (simp add: isShamsiLeapYear_def js_rem_def)

text \<open>
  Claim C8, amended. \<open>isShamsiLeapYear year\<close> equals \<open>isShamsiLeapYear (year + 33)\<close>
  for every integer year except -29, -25, -21, -17, -13, -9 and -5, where the two
  differ; in particular the equality holds for every year from 0 on.
\<close>

theorem isShamsiLeapYear_period:
  "(isShamsiLeapYear year = isShamsiLeapYear (year + 33)) =
   (year \<notin> {- 29, - 25, - 21, - 17, - 13, - 9, - 5})"
proof -
  consider "0 \<le> year" | "year < - 33" | "year = - 33" | "- 33 < year" "year < 0" by linarith
  then show ?thesis
  proof cases
    case 1
    then show ?thesis by (simp add: leap_nonneg)
  next
    case 2
    then show ?thesis by (simp add: leap_neg)
  next
    case 3
    then show ?thesis by (simp add: leap_neg leap_nonneg)
  next
    case 4
    then have a: "isShamsiLeapYear year = False" by (simp add: leap_neg) presburger
    from 4 have m: "year mod 33 = year + 33" by presburger
    from 4 have b: "isShamsiLeapYear (year + 33) = (year mod 33 \<in> {0, 4, 8, 12, 16, 20, 24, 28})"
      by (simp add: leap_nonneg)
    show ?thesis unfolding a b m using 4 by auto
  qed
qed

theorem isShamsiLeapYear_period_witness:
  "isShamsiLeapYear 1390 = isShamsiLeapYear (1390 + 33) \<and>
   isShamsiLeapYear (- 5) \<noteq> isShamsiLeapYear (- 5 + 33)"
  using isShamsiLeapYear_period [of 1390] isShamsiLeapYear_period [of "- 5"] by simp

section \<open>Month lengths\<close>

text \<open>
  Claim C6. \<open>getShamsiMonthDays\<close> returns \<^verbatim>\<open>null\<close> for a month below 1 or above
  12; for a month in 1 .. 12 it returns the entry at index \<open>month - 1\<close> of the
  leap table when the year is leap and of the regular table otherwise; for month 12
  that is 29 in a leap year and 30 in a common year.
\<close>

theorem getShamsiMonthDays_table:
  "(month < 1 \<or> 12 < month \<longrightarrow> getShamsiMonthDays month year = None) \<and>
   (1 \<le> month \<and> month \<le> 12 \<longrightarrow>
      getShamsiMonthDays month year =
        Some ((if isShamsiLeapYear year then leapYearDaysInMonths else regularYearDaysInMonths)
              ! nat (month - 1))) \<and>
   getShamsiMonthDays 12 year = Some (if isShamsiLeapYear year then 29 else 30)"
  by (auto simp add: getShamsiMonthDays_def at_index_def leapYearDaysInMonths_def
        regularYearDaysInMonths_def)

theorem getShamsiMonthDays_table_witness:
  "getShamsiMonthDays 13 1390 = None \<and> getShamsiMonthDays 0 1390 = None \<and>
   getShamsiMonthDays 4 1390 = Some 30 \<and> getShamsiMonthDays 12 1390 = Some 29 \<and>
   getShamsiMonthDays 12 1391 = Some 30"
  using getShamsiMonthDays_table [of 13 1390] getShamsiMonthDays_table [of 0 1390]
    getShamsiMonthDays_table [of 4 1390] getShamsiMonthDays_table [of 12 1391]
  by (simp add: isShamsiLeapYear_def js_rem_def leapYearDaysInMonths_def
        regularYearDaysInMonths_def)

lemma monthDaysSum_eq: "monthDaysSum year = (if isShamsiLeapYear year then 366 else 367)"
  by (simp add: monthDaysSum_def upt_rec getShamsiMonthDays_def at_index_def
        leapYearDaysInMonths_def regularYearDaysInMonths_def)

text \<open>
  Claim C2 at the year 1403, a common year of the rule: the twelve month lengths
  add up to 367, while \<open>getShamsiYearDays\<close> gives 365 for the same year.
\<close>

theorem monthDaysSum_1403:
  "\<not> isShamsiLeapYear 1403 \<and> monthDaysSum 1403 = 367 \<and> getShamsiYearDays 1403 = 365"
  by (simp add: monthDaysSum_def upt_rec getShamsiMonthDays_def at_index_def
        leapYearDaysInMonths_def regularYearDaysInMonths_def getShamsiYearDays_def
        isShamsiLeapYear_def js_rem_def)

section \<open>The calendar of the Date object\<close>

text \<open>
  The computed year is the year of the ECMAScript specification, the largest \<open>y\<close>
  with \<open>DayFromYear y \<le> d\<close>, and the fields read from a day that \<open>MakeDay\<close>
  built are the fields it was built from.
\<close>

lemma div_lower: "0 < c \<Longrightarrow> c * (x div c) \<le> x" for x c :: int
proof -
  assume c: "0 < c"
  have "x = c * (x div c) + x mod c" by simp
  moreover have "0 \<le> x mod c" using c by simp
  ultimately show ?thesis by linarith
qed

lemma div_upper: "0 < c \<Longrightarrow> x < c * (x div c) + c" for x c :: int
proof -
  assume c: "0 < c"
  have "x = c * (x div c) + x mod c" by simp
  moreover have "x mod c < c" using c by simp
  ultimately show ?thesis by linarith
qed

lemma DayFromYear_estimate:
  "146097 * y - 287811890 \<le> 400 * DayFromYear y"
  "400 * DayFromYear y \<le> 146097 * y - 287810290"
proof -
  define a where "a = (y - 1969) div 4"
  define b where "b = (y - 1901) div 100"
  define c where "c = (y - 1601) div 400"
  have a: "4 * a \<le> y - 1969" "y - 1969 < 4 * a + 4"
    using div_lower [of 4 "y - 1969"] div_upper [of 4 "y - 1969"] by (simp_all add: a_def)
  have b: "100 * b \<le> y - 1901" "y - 1901 < 100 * b + 100"
    using div_lower [of 100 "y - 1901"] div_upper [of 100 "y - 1901"] by (simp_all add: b_def)
  have c: "400 * c \<le> y - 1601" "y - 1601 < 400 * c + 400"
    using div_lower [of 400 "y - 1601"] div_upper [of 400 "y - 1601"] by (simp_all add: c_def)
  have d: "400 * DayFromYear y = 146000 * y - 287620000 + 400 * a - 400 * b + 400 * c"
    by (simp add: DayFromYear_def a_def b_def c_def algebra_simps)
  show "146097 * y - 287811890 \<le> 400 * DayFromYear y"
    unfolding d using a b c by linarith
  show "400 * DayFromYear y \<le> 146097 * y - 287810290"
    unfolding d using a b c by linarith
qed

lemma div_succ:
  fixes x c :: int
  assumes "0 < c"
  shows "(x + 1) div c = x div c + (if (x + 1) mod c = 0 then 1 else 0)"
proof -
  define q where "q = x div c"
  define r where "r = x mod c"
  have x: "x = c * q + r" by (simp add: q_def r_def)
  have r: "0 \<le> r" "r < c" using assms by (simp_all add: r_def)
  show ?thesis
  proof (cases "r + 1 = c")
    case True
    then have "x + 1 = c * (q + 1)" using x by (simp add: algebra_simps)
    with assms show ?thesis by (simp add: q_def [symmetric])
  next
    case False
    with r have s: "0 \<le> r + 1" "r + 1 < c" by simp_all
    have e: "x + 1 = (r + 1) + q * c" using x by simp
    have d: "(x + 1) div c = q" unfolding e using s by (simp add: div_pos_pos_trivial)
    have m: "(x + 1) mod c = r + 1" unfolding e using s by (simp add: mod_pos_pos_trivial)
    from d m r show ?thesis by (simp add: q_def)
  qed
qed

lemma leap_divisors: "y mod 100 = 0 \<Longrightarrow> y mod 4 = 0" "y mod 400 = 0 \<Longrightarrow> y mod 100 = 0"
  for y :: int
proof -
  have "(4 :: int) dvd 100" "(100 :: int) dvd 400" by simp_all
  then show "y mod 100 = 0 \<Longrightarrow> y mod 4 = 0" "y mod 400 = 0 \<Longrightarrow> y mod 100 = 0"
    by (auto simp add: mod_eq_0_iff_dvd elim: dvd_trans)
qed

lemma DayFromYear_step: "DayFromYear (y + 1) = DayFromYear y + DaysInYear y"
proof -
  have a: "(y + 1 - 1969) div 4 = (y - 1969) div 4 + (if y mod 4 = 0 then 1 else 0)"
  proof -
    have "(y - 1968) mod 4 = y mod 4" by presburger
    with div_succ [of 4 "y - 1969"] show ?thesis by (simp add: algebra_simps)
  qed
  have b: "(y + 1 - 1901) div 100 = (y - 1901) div 100 + (if y mod 100 = 0 then 1 else 0)"
  proof -
    have "(y - 1900) mod 100 = (y - 19 * 100) mod 100" by simp
    also have "\<dots> = (y + (- 19) * 100) mod 100" by simp
    also have "\<dots> = y mod 100" by (simp only: mod_mult_self1)
    finally have "(y - 1900) mod 100 = y mod 100" .
    with div_succ [of 100 "y - 1901"] show ?thesis by (simp add: algebra_simps)
  qed
  have c: "(y + 1 - 1601) div 400 = (y - 1601) div 400 + (if y mod 400 = 0 then 1 else 0)"
  proof -
    have "(y - 1600) mod 400 = (y + (- 4) * 400) mod 400" by simp
    also have "\<dots> = y mod 400" by (simp only: mod_mult_self1)
    finally have "(y - 1600) mod 400 = y mod 400" .
    with div_succ [of 400 "y - 1601"] show ?thesis by (simp add: algebra_simps)
  qed
  show ?thesis
    unfolding DayFromYear_def DaysInYear_def a b c
    using leap_divisors [of y] by (auto simp add: algebra_simps)
qed

lemma DaysInYear_pos: "0 < DaysInYear y"
  by (simp add: DaysInYear_def)

lemma DayFromYear_mono: "y \<le> z \<Longrightarrow> DayFromYear y \<le> DayFromYear z"
proof (induction z rule: int_ge_induct)
  case base
  show ?case by simp
next
  case (step i)
  with DaysInYear_pos [of i] show ?case by (simp add: DayFromYear_step)
qed

lemma YearFromDay_bounds:
  "DayFromYear (YearFromDay d) \<le> d \<and> d < DayFromYear (YearFromDay d + 1)"
proof -
  define e where "e = (400 * d) div 146097"
  define y where "y = 1970 + e"
  have e: "146097 * e \<le> 400 * d" "400 * d < 146097 * e + 146097"
    using div_lower [of 146097 "400 * d"] div_upper [of 146097 "400 * d"]
    by (simp_all add: e_def)
  have lo: "DayFromYear (y - 1) \<le> d"
    using DayFromYear_estimate(2) [of "y - 1"] e by (simp add: y_def)
  have hi: "d < DayFromYear (y + 1 + 1)"
    using DayFromYear_estimate(1) [of "y + 1 + 1"] e by (simp add: y_def)
  have yfd: "YearFromDay d =
      (if d < DayFromYear y then y - 1 else if DayFromYear (y + 1) \<le> d then y + 1 else y)"
    by (simp add: YearFromDay_def Let_def y_def e_def)
  show ?thesis
  proof (cases "d < DayFromYear y")
    case True
    with lo show ?thesis by (simp add: yfd)
  next
    case False
    show ?thesis
    proof (cases "DayFromYear (y + 1) \<le> d")
      case True
      with False hi show ?thesis by (simp add: yfd)
    next
      case ge: False
      with False show ?thesis by (simp add: yfd)
    qed
  qed
qed

lemma YearFromDay_largest: "DayFromYear y \<le> d \<Longrightarrow> y \<le> YearFromDay d"
proof (rule ccontr)
  assume a: "DayFromYear y \<le> d" and "\<not> y \<le> YearFromDay d"
  then have "YearFromDay d + 1 \<le> y" by simp
  then have "DayFromYear (YearFromDay d + 1) \<le> DayFromYear y" by (rule DayFromYear_mono)
  with a YearFromDay_bounds [of d] show False by linarith
qed


lemma YearFromDay_unique:
  assumes "DayFromYear y \<le> d" and "d < DayFromYear (y + 1)"
  shows "YearFromDay d = y"
proof -
  have "y \<le> YearFromDay d" using assms(1) by (rule YearFromDay_largest)
  moreover have "YearFromDay d \<le> y"
  proof (rule ccontr)
    assume "\<not> YearFromDay d \<le> y"
    then have "y + 1 \<le> YearFromDay d" by simp
    then have "DayFromYear (y + 1) \<le> DayFromYear (YearFromDay d)" by (rule DayFromYear_mono)
    with assms(2) YearFromDay_bounds [of d] show False by linarith
  qed
  ultimately show ?thesis by simp
qed


lemma DaysInYear_cases: "DaysInYear y = 365 \<or> DaysInYear y = 366"
  by (simp add: DaysInYear_def)

lemma month_window:
  assumes "l = 0 \<or> l = 1"
    and "m = 0 \<or> m = 1 \<or> m = 2 \<or> m = 3 \<or> m = 4 \<or> m = 5 \<or> m = 6 \<or> m = 7 \<or> m = 8 \<or> m = 9 \<or>
         m = 10 \<or> m = 11"
    and "1 \<le> dd"
    and "monthStarts l ! nat m + dd - 1 < (if m = 11 then 365 + l else monthStarts l ! nat (m + 1))"
  shows "0 \<le> monthStarts l ! nat m + dd - 1 \<and> monthStarts l ! nat m + dd - 1 < 365 + l \<and>
         int (length (filter (\<lambda>s. s \<le> monthStarts l ! nat m + dd - 1) (monthStarts l))) - 1 = m"
  using assms by (elim disjE; simp add: monthStarts_def)

lemma fields_of_MakeDay:
  assumes m: "0 \<le> m" "m \<le> 11" and d: "1 \<le> dd" "MakeDay y m dd < MakeDay y (m + 1) 1"
  shows "YearFromDay (MakeDay y m dd) = y \<and> MonthFromDay (MakeDay y m dd) = m \<and>
         DateFromDay (MakeDay y m dd) = dd"
proof -
  define l :: int where "l = (if DaysInYear y = 366 then 1 else 0)"
  have l: "l = 0 \<or> l = 1" by (simp add: l_def)
  have len: "DaysInYear y = 365 + l" using DaysInYear_cases [of y] by (auto simp add: l_def)
  from m have mc: "m = 0 \<or> m = 1 \<or> m = 2 \<or> m = 3 \<or> m = 4 \<or> m = 5 \<or> m = 6 \<or> m = 7 \<or> m = 8 \<or>
      m = 9 \<or> m = 10 \<or> m = 11"
    by presburger
  have md: "MakeDay y m dd = DayFromYear y + monthStarts l ! nat m + dd - 1"
    using m by (simp add: MakeDay_def l_def Let_def div_pos_pos_trivial mod_pos_pos_trivial)
  have nx: "MakeDay y (m + 1) 1 =
      DayFromYear y + (if m = 11 then 365 + l else monthStarts l ! nat (m + 1))"
  proof (cases "m = 11")
    case True
    then show ?thesis
      by (simp add: MakeDay_def Let_def monthStarts_def DayFromYear_step len)
  next
    case False
    with m have "0 \<le> m + 1" "m + 1 < 12" by simp_all
    then have "(m + 1) div 12 = 0" "(m + 1) mod 12 = m + 1"
      by (simp_all add: div_pos_pos_trivial mod_pos_pos_trivial)
    with False show ?thesis by (simp add: MakeDay_def Let_def l_def)
  qed
  define w where "w = monthStarts l ! nat m + dd - 1"
  have lt: "monthStarts l ! nat m + dd - 1
      < (if m = 11 then 365 + l else monthStarts l ! nat (m + 1))"
    using d(2) unfolding md nx by linarith
  have win: "0 \<le> w \<and> w < 365 + l \<and>
      int (length (filter (\<lambda>s. s \<le> w) (monthStarts l))) - 1 = m"
    unfolding w_def using l mc d(1) lt by (rule month_window)
  have yr: "YearFromDay (DayFromYear y + w) = y"
    using win by (intro YearFromDay_unique) (simp_all add: DayFromYear_step len)
  have dw: "DayWithinYear (DayFromYear y + w) = w" by (simp add: DayWithinYear_def yr)
  have il: "InLeapYear (DayFromYear y + w) = l" by (simp add: InLeapYear_def yr l_def)
  have mo: "MonthFromDay (DayFromYear y + w) = m" using win by (simp add: MonthFromDay_def dw il)
  have da: "DateFromDay (DayFromYear y + w) = dd"
    unfolding DateFromDay_def dw il mo by (simp add: w_def)
  have "MakeDay y m dd = DayFromYear y + w" by (simp add: md w_def)
  with yr mo da show ?thesis by simp
qed

section \<open>Evaluation of the model\<close>

lemma num_add_Some: "num_add (Some a) (Some b) = Some (a + b)"
  by (simp add: num_add_def)

lemma num_add_None: "num_add a None = None" "num_add None b = None"
  by (simp_all add: num_add_def split: option.splits)

lemma months_loop_sum:
  "0 \<le> i \<Longrightarrow> month - 1 \<le> int (length t) \<Longrightarrow>
   months_loop t month i a =
     num_add a (Some (sum_list (take (nat (month - 1) - nat i) (drop (nat i) t))))"
proof (induction t month i a rule: months_loop.induct)
  case (1 t month i a)
  show ?case
  proof (cases "i < month - 1")
    case True
    with "1.prems" have len: "nat i < length t" by linarith
    with "1.prems" have at: "at_index t i = Some (t ! nat i)" by (simp add: at_index_def)
    from True "1.prems" have k: "nat (month - 1) - nat i = Suc (nat (month - 1) - nat (i + 1))"
      by linarith
    from "1.prems" have n: "nat (i + 1) = Suc (nat i)" by linarith
    have split: "take (nat (month - 1) - nat i) (drop (nat i) t) =
        t ! nat i # take (nat (month - 1) - nat (i + 1)) (drop (nat (i + 1)) t)"
      unfolding k n using len by (simp add: Cons_nth_drop_Suc [symmetric])
    have "months_loop t month i a = months_loop t month (i + 1) (num_add a (at_index t i))"
      using True by (simp add: months_loop.simps [of t month i a])
    also have "\<dots> = num_add (num_add a (at_index t i))
        (Some (sum_list (take (nat (month - 1) - nat (i + 1)) (drop (nat (i + 1)) t))))"
      using True "1.prems" by (intro "1.IH") simp_all
    also have "\<dots> = num_add a (Some (sum_list (take (nat (month - 1) - nat i) (drop (nat i) t))))"
      unfolding split at by (cases a) (simp_all add: num_add_def)
    finally show ?thesis .
  next
    case False
    then have z: "nat (month - 1) - nat i = 0" by linarith
    from False have "months_loop t month i a = a"
      by (simp add: months_loop.simps [of t month i a])
    then show ?thesis unfolding z by (cases a) (simp_all add: num_add_def)
  qed
qed

lemma floor_33: "\<lfloor>real_of_int x / 33\<rfloor> = x div 33"
proof -
  have "\<lfloor>real_of_int x / real_of_int 33\<rfloor> = x div 33" by (rule floor_divide_of_int_eq)
  then show ?thesis by simp
qed

lemma MakeDay_anchor: "MakeDay 621 2 21 = - 492633"
  by (simp add: MakeDay_def DayFromYear_def DaysInYear_def monthStarts_def)

lemma anchor_date: "Date_of_fields 621 2 21 = Some (- 492633 * 86400000)"
  by (simp add: Date_of_fields_def MakeDay_anchor TimeClip_def msPerDay_def)

lemma shamsiToGregorianDate_spec:
  assumes "month \<le> 13"
  shows "shamsiToGregorianDate year month day = spec_persianToGregorian year month day"
proof -
  let ?t = "if isShamsiLeapYear year then leapYearDaysInMonths else regularYearDaysInMonths"
  have len: "length ?t = 12" by (simp add: leapYearDaysInMonths_def regularYearDaysInMonths_def)
  have loop: "months_loop ?t month 0 (Some 0) = Some (sum_list (take (nat (month - 1)) ?t))"
    using assms len by (subst months_loop_sum) (simp_all add: num_add_def)
  show ?thesis
    unfolding shamsiToGregorianDate_def spec_persianToGregorian_def Let_def loop
      spec_elapsedDays_def spec_dayOfYear_def anchor_date MakeDay_anchor floor_33
    by (simp add: num_add_def num_mul_def getTime_def Date_of_number_def msPerDay_def
          algebra_simps)
qed


lemmas calendar_defs =
  YearFromDay_def DayFromYear_def DaysInYear_def InLeapYear_def DayWithinYear_def
  MonthFromDay_def DateFromDay_def monthStarts_def MakeDay_def

lemmas date_defs =
  getFullYear_def getMonth_def getDate_def getTime_def Day_def TimeWithinDay_def msPerDay_def
  TimeClip_def Date_of_fields_def Date_of_number_def

lemmas string_defs =
  Number_toString_def padZero_def padStart2_def ascii_def natToString.simps num_less_def

section \<open>Persian to Gregorian\<close>

lemma fields_19139:
  "YearFromDay 19139 = 2022" "MonthFromDay 19139 = 4" "DateFromDay 19139 = 27"
  by (simp_all add: calendar_defs)

lemma date_1403: "shamsiToGregorianDate 1403 1 1 = Some 1653609600000"
  by (simp add: shamsiToGregorianDate_spec spec_persianToGregorian_def spec_elapsedDays_def
        spec_dayOfYear_def MakeDay_anchor msPerDay_def TimeClip_def)

lemma string_1403: "convertShamsiToGregorian 1403 1 1 = ascii ''2022-05-27''"
  by (simp add: convertShamsiToGregorian_def date_1403 date_defs fields_19139 num_add_def
        string_defs)




section \<open>Day arithmetic\<close>

lemma parse_2022_05_27: "Date_parse (ascii ''2022-05-27'') = Some 1653609600000"
  by (simp add: Date_parse_def ascii_def Number_of_digits_def isAsciiDigit_def calendar_defs
        msPerDay_def TimeClip_def)

lemma floor_quot_day: "floor_quot (Some x) 86400000 = Some (x div 86400000)"
proof -
  have "\<lfloor>real_of_int x / real_of_int 86400000\<rfloor> = x div 86400000"
    by (rule floor_divide_of_int_eq)
  then show ?thesis by (simp add: floor_quot_def)
qed

lemma floor_quot_year: "floor_quot (Some x) (1826211 / 5000) = Some ((5000 * x) div 1826211)"
proof -
  have "real_of_int x / (1826211 / 5000) = real_of_int (5000 * x) / real_of_int 1826211" by simp
  then have "\<lfloor>real_of_int x / (1826211 / 5000)\<rfloor> = (5000 * x) div 1826211"
    by (simp only: floor_divide_of_int_eq)
  then show ?thesis by (simp add: floor_quot_def)
qed

lemma shamsi_of_2022_05_27: "convertGregorianToShamsi 2022 5 27 = ascii ''2022/02/12''"
  by (simp add: convertGregorianToShamsi_def anchor_date Date_of_fields_def calendar_defs
        TimeClip_def msPerDay_def getTime_def num_sub_def floor_quot_day floor_quot_year
        num_add_def js_rem_def isShamsiLeapYear_def regularYearDaysInMonths_def
        find_month.simps at_index_def string_defs Let_def)

lemma fields_245135:
  "YearFromDay 245135 = 2641" "MonthFromDay 245135 = 1" "DateFromDay 245135 = 27"
  by (simp_all add: calendar_defs)

lemma string_2022_02_12: "convertShamsiToGregorian 2022 2 12 = ascii ''2641-02-27''"
proof -
  have d: "shamsiToGregorianDate 2022 2 12 = Some (245135 * 86400000)"
    by (simp add: shamsiToGregorianDate_spec spec_persianToGregorian_def spec_elapsedDays_def
          spec_dayOfYear_def MakeDay_anchor msPerDay_def TimeClip_def isShamsiLeapYear_def
          js_rem_def regularYearDaysInMonths_def)
  show ?thesis
    by (simp add: convertShamsiToGregorian_def d date_defs fields_245135 num_add_def string_defs)
qed

lemma parse_2641_02_27: "Date_parse (ascii ''2641-02-27'') = Some (245135 * 86400000)"
  by (simp add: Date_parse_def ascii_def Number_of_digits_def isAsciiDigit_def calendar_defs
        msPerDay_def TimeClip_def)

lemma shamsi_of_2641_02_27: "convertGregorianToShamsi 2641 2 27 = ascii ''2640/04/11''"
  by (simp add: convertGregorianToShamsi_def anchor_date Date_of_fields_def calendar_defs
        TimeClip_def msPerDay_def getTime_def num_sub_def floor_quot_day floor_quot_year
        num_add_def js_rem_def isShamsiLeapYear_def leapYearDaysInMonths_def
        find_month.simps at_index_def string_defs Let_def)

lemma subtractShamsiDays_negates:
  "subtractShamsiDays year month day n = addShamsiDays year month day (- n)"
  by (simp add: subtractShamsiDays_def)

text \<open>
  Claim C5 at the valid date 1403/01/01 with \<open>n = 0\<close>: \<open>addShamsiDays\<close> returns
  2022/02/12, and adding \<open>-n\<close> to that date returns 2640/04/11, not 1403/01/01.
  \<open>convertShamsiToGregorian\<close> gives 2022-05-27 for the date, and
  \<open>convertGregorianToShamsi\<close> takes the year of its result to be 621 plus the
  years elapsed since the year 621, which is the Gregorian year again.
\<close>

theorem addShamsiDays_round_trip_1403:
  "validShamsiDate 1403 1 1 \<and>
   addShamsiDays 1403 1 1 0 = Some (ascii ''2022/02/12'') \<and>
   addShamsiDays 2022 2 12 (- 0) = Some (ascii ''2640/04/11'') \<and>
   ascii ''2022/02/12'' \<noteq> ascii ''1403/01/01'' \<and>
   ascii ''2640/04/11'' \<noteq> ascii ''1403/01/01''"
proof (intro conjI)
  show "validShamsiDate 1403 1 1"
    by (simp add: validShamsiDate_def getShamsiMonthDays_def at_index_def isShamsiLeapYear_def
          js_rem_def regularYearDaysInMonths_def)
  show "addShamsiDays 1403 1 1 0 = Some (ascii ''2022/02/12'')"
    by (simp add: addShamsiDays_def string_1403 parse_2022_05_27 setDate_def date_defs
          fields_19139 num_add_def MakeDay_def DayFromYear_def DaysInYear_def monthStarts_def
          shamsi_of_2022_05_27)
  show "addShamsiDays 2022 2 12 (- 0) = Some (ascii ''2640/04/11'')"
    by (simp add: addShamsiDays_def string_2022_02_12 parse_2641_02_27 setDate_def date_defs
          fields_245135 num_add_def MakeDay_def DayFromYear_def DaysInYear_def monthStarts_def
          shamsi_of_2641_02_27)
  show "ascii ''2022/02/12'' \<noteq> ascii ''1403/01/01''" by (simp add: ascii_def)
  show "ascii ''2640/04/11'' \<noteq> ascii ''1403/01/01''" by (simp add: ascii_def)
qed

section \<open>The two Persian to Gregorian converters\<close>

lemma fields_legacy_anchor: "YearFromDay (- 207014) = 1403"
  by (simp add: calendar_defs)

lemma fields_legacy:
  "YearFromDay (- 207013) = 1403" "MonthFromDay (- 207013) = 2" "DateFromDay (- 207013) = 22"
  by (simp_all add: calendar_defs)

lemma legacy_1403: "legacyGregorianDate 1403 1 1 = Some (- 207013 * 86400000)"
proof -
  have a: "Date_of_fields 1403 2 21 = Some (- 207014 * 86400000)"
    by (simp add: Date_of_fields_def calendar_defs TimeClip_def msPerDay_def)
  have y: "getFullYear (Some (- 207014 * 86400000)) = Some 1403"
    using fields_legacy_anchor by (simp add: getFullYear_def Day_def msPerDay_def)
  have l: "months_loop leapYearDaysInMonths 1 0 (Some 0) = Some 0"
    by (simp add: months_loop.simps)
  show ?thesis
    unfolding legacyGregorianDate_def Let_def a y
    by (simp add: a js_rem_def l num_add_def num_mul_def getTime_def Date_of_number_def
          TimeClip_def)
qed

lemma legacy_string_1403: "convertToGregorianDate (ascii ''1403/01/01'') = Some (ascii ''03/22/1403'')"
proof -
  have p: "map Number_of_digits (split_on 47 (ascii ''1403/01/01'')) = [Some 1403, Some 1, Some 1]"
    by (simp add: ascii_def Number_of_digits_def isAsciiDigit_def)
  have f: "(- 207013 * 86400000 :: int) div 86400000 = - 207013" by simp
  show ?thesis
    unfolding convertToGregorianDate_def p
    using fields_legacy
    by (simp add: legacy_1403 getFullYear_def getMonth_def getDate_def Day_def msPerDay_def
          num_add_def string_defs)
qed

text \<open>
  Claim C10. The two converters disagree on a valid Persian date: for 1403/01/01
  \<open>convertToGregorianDate\<close> returns 03/22/1403 and \<open>convertShamsiToGregorian\<close>
  returns 2022-05-27, and the Dates behind the two strings show different calendar
  dates. The first takes 1403 for a leap year by \<^verbatim>\<open>year % 4 === 3\<close> and counts from
  March 21 of the year 1403; the second does not take it for a leap year and counts
  from 621-03-21.
\<close>

theorem converters_differ:
  "convertToGregorianDate (ascii ''1403/01/01'') = Some (ascii ''03/22/1403'') \<and>
   convertShamsiToGregorian 1403 1 1 = ascii ''2022-05-27'' \<and>
   js_rem 1403 4 = 3 \<and> isShamsiLeapYear 1403 = False \<and>
   (\<exists>year month day a b. validShamsiDate year month day \<and>
      dateFields (legacyGregorianDate year month day) = Some a \<and>
      dateFields (shamsiToGregorianDate year month day) = Some b \<and> a \<noteq> b)"
proof -
  have v: "validShamsiDate 1403 1 1"
    by (simp add: validShamsiDate_def getShamsiMonthDays_def at_index_def isShamsiLeapYear_def
          js_rem_def regularYearDaysInMonths_def)
  have a: "dateFields (legacyGregorianDate 1403 1 1) = Some (1403, 3, 22)"
    using fields_legacy
    by (simp add: dateFields_def legacy_1403 getFullYear_def getMonth_def getDate_def Day_def
          msPerDay_def)
  have b: "dateFields (shamsiToGregorianDate 1403 1 1) = Some (2022, 5, 27)"
    using fields_19139
    by (simp add: dateFields_def date_1403 getFullYear_def getMonth_def getDate_def Day_def
          msPerDay_def)
  have "(1403 :: int, 3 :: int, 22 :: int) \<noteq> (2022, 5, 27)" by simp
  with v a b have "\<exists>year month day a b. validShamsiDate year month day \<and>
      dateFields (legacyGregorianDate year month day) = Some a \<and>
      dateFields (shamsiToGregorianDate year month day) = Some b \<and> a \<noteq> b"
    by blast
  moreover have "js_rem 1403 4 = 3" "isShamsiLeapYear 1403 = False"
    by (simp_all add: js_rem_def isShamsiLeapYear_def)
  ultimately show ?thesis
    using legacy_string_1403 string_1403 by blast
qed

section \<open>Week number\<close>

lemma ceil_quot_week: "ceil_quot (Some d) 7 = Some (- ((- d) div 7))"
proof -
  have "\<lfloor>real_of_int (- d) / real_of_int 7\<rfloor> = (- d) div 7"
    by (rule floor_divide_of_int_eq)
  then have "\<lceil>real_of_int d / 7\<rceil> = - ((- d) div 7)"
    by (simp add: ceiling_def)
  then show ?thesis by (simp add: ceil_quot_def)
qed

lemma double_of_int_exact: "\<bar>x\<bar> \<le> 2 ^ 53 \<Longrightarrow> double_of_int x = x"
  by (simp add: double_of_int_def)

lemma weekNumber_rounded:
  "weekNumber (Some t) (Some s) = Some (- ((- (double_of_int (t - s) div 86400000)) div 7))"
  by (simp add: weekNumber_def getTime_def time_diff_def num_sub_def floor_quot_day
        ceil_quot_week)

lemma weekNumber_int:
  "\<bar>t - s\<bar> \<le> 2 ^ 53 \<Longrightarrow>
   weekNumber (Some t) (Some s) = Some (- ((- ((t - s) div 86400000)) div 7))"
  by (simp add: weekNumber_rounded double_of_int_exact)

text \<open>
  Beyond \<open>2^53\<close> the rounding of the difference shows: these two valid Dates are
  140000000 days and 86399999 ms apart, the subtraction returns 140000001 days,
  and the week number is 20000001.
\<close>

lemma weekNumber_far_apart:
  "weekNumber (Some 8640000000000000) (Some (- 3456000086399999)) = Some 20000001"
  by (simp add: weekNumber_rounded double_of_int_def)

lemma ascii_digit_not_persian: "n < 10 \<Longrightarrow> \<not> isPersianDigit (48 + of_nat n)"
proof -
  assume n: "n < 10"
  then have "uint (48 + of_nat n :: 16 word) = 48 + int n"
    by (simp add: uint_word_ariths uint_word_of_int take_bit_eq_mod unsigned_of_nat)
  with n show ?thesis by (simp add: persian_digit_uint)
qed

lemma natToString_latin: "latinDigit c = c" if "c \<in> set (natToString n)" for c
  using that
proof (induction n arbitrary: c rule: natToString.induct)
  case (1 n)
  show ?case
  proof (cases "n < 10")
    case True
    with "1.prems" have "c = 48 + of_nat n" by (simp add: natToString.simps [of n])
    with True ascii_digit_not_persian show ?thesis by (simp add: latinDigit_def)
  next
    case False
    with "1.prems" have "c \<in> set (natToString (n div 10)) \<or> c = 48 + of_nat (n mod 10)"
      by (auto simp add: natToString.simps [of n])
    then show ?thesis
    proof
      assume "c \<in> set (natToString (n div 10))"
      with False "1.IH" show ?thesis by simp
    next
      assume "c = 48 + of_nat (n mod 10)"
      with ascii_digit_not_persian [of "n mod 10"] show ?thesis by (simp add: latinDigit_def)
    qed
  qed
qed

lemma natToString_map_latin: "map latinDigit (natToString k) = natToString k"
  by (simp add: map_idI natToString_latin)

lemma Number_toString_latin: "convertToLatinDigits (Number_toString n) = Number_toString n"
proof (cases n)
  case None
  then show ?thesis
    by (simp add: convertToLatinDigits_map Number_toString_def ascii_def latinDigit_def
          isPersianDigit_def)
next
  case (Some k)
  have "latinDigit 45 = 45" by (simp add: latinDigit_def isPersianDigit_def)
  with Some show ?thesis
    by (simp add: convertToLatinDigits_map Number_toString_def ascii_def natToString_map_latin)
qed

lemma weekNumber_sign:
  fixes t s :: int
  shows "(0 \<le> - ((- ((t - s) div 86400000)) div 7)) = (s - t \<le> 6 * 86400000)"
proof -
  define q where "q = (t - s) div 86400000"
  define r where "r = (t - s) mod 86400000"
  have e: "t - s = 86400000 * q + r" by (simp add: q_def r_def)
  have r: "0 \<le> r" "r < 86400000" by (simp_all add: r_def)
  have w: "(0 \<le> - ((- q) div 7)) = (- 6 \<le> q)" by presburger
  have "(- 6 \<le> q) = (s - t \<le> 6 * 86400000)" using e r by linarith
  with w show ?thesis by (simp add: q_def)
qed

lemma date_2024_03_21: "Date_of_fields 2024 2 21 = Some 1710979200000"
  by (simp add: Date_of_fields_def MakeDay_def DayFromYear_def DaysInYear_def monthStarts_def
        TimeClip_def msPerDay_def)

lemma date_2025_03_21: "Date_of_fields 2025 2 21 = Some 1742515200000"
  by (simp add: Date_of_fields_def MakeDay_def DayFromYear_def DaysInYear_def monthStarts_def
        TimeClip_def msPerDay_def)

text \<open>
  Claim C7, as stated, fails when the caller passes a year start after the date:
  for the date 2024-03-21 and the year start 2025-03-21 the difference is -365 days
  and the week number returned is -52.
\<close>

theorem getShamsiWeekNumber_negative_counterexample:
  "weekNumber (Date_of_fields 2024 2 21) (Date_of_fields 2025 2 21) = Some (- 52) \<and>
   getShamsiWeekNumber (Date_of_fields 2024 2 21) (Date_of_fields 2025 2 21) = ascii ''-52'' \<and>
   \<not> (0 :: int) \<le> - 52"
  by (simp add: date_2024_03_21 date_2025_03_21 getShamsiWeekNumber_def weekNumber_int
        Number_toString_def natToString.simps ascii_def convertToLatinDigits_map latinDigit_def
        isPersianDigit_def)

text \<open>
  Claim C7, amended. For valid Dates with time values \<open>t\<close> (date) and \<open>s\<close> (year
  start) that are at most \<open>2^53\<close> ms apart, \<open>getShamsiWeekNumber\<close> returns the
  decimal string of \<open>ceil (floor ((t - s) / 86400000) / 7)\<close>, and that number is at
  least 0 whenever the date is at most six days before the year start, so in
  particular whenever the date is not before the year start.
\<close>

theorem getShamsiWeekNumber_value:
  assumes "\<bar>t\<bar> \<le> 8640000000000000" and "\<bar>s\<bar> \<le> 8640000000000000"
    and "\<bar>t - s\<bar> \<le> 2 ^ 53"
  shows "weekNumber (Some t) (Some s) =
           Some \<lceil>real_of_int \<lfloor>real_of_int (t - s) / 86400000\<rfloor> / 7\<rceil> \<and>
         getShamsiWeekNumber (Some t) (Some s) = Number_toString (weekNumber (Some t) (Some s)) \<and>
         (s - t \<le> 6 * 86400000 \<longrightarrow> (\<exists>w. weekNumber (Some t) (Some s) = Some w \<and> 0 \<le> w))"
proof (intro conjI)
  have x: "double_of_int (t - s) = t - s"
    using assms(3) by (rule double_of_int_exact)
  show "weekNumber (Some t) (Some s) =
      Some \<lceil>real_of_int \<lfloor>real_of_int (t - s) / 86400000\<rfloor> / 7\<rceil>"
    by (simp add: weekNumber_def getTime_def time_diff_def num_sub_def x floor_quot_def
          ceil_quot_def)
  show "getShamsiWeekNumber (Some t) (Some s) = Number_toString (weekNumber (Some t) (Some s))"
    by (simp add: getShamsiWeekNumber_def Number_toString_latin)
  show "s - t \<le> 6 * 86400000 \<longrightarrow> (\<exists>w. weekNumber (Some t) (Some s) = Some w \<and> 0 \<le> w)"
    using weekNumber_sign [of t s] by (simp add: weekNumber_int [OF assms(3)])
qed

theorem getShamsiWeekNumber_value_witness:
  "Date_of_fields 2024 2 21 = Some 1710979200000 \<and>
   Date_of_fields 2024 5 18 = Some 1718668800000 \<and>
   weekNumber (Some 1718668800000) (Some 1710979200000) = Some 13 \<and>
   getShamsiWeekNumber (Some 1718668800000) (Some 1710979200000) = ascii ''13''"
proof -
  have d3: "Date_of_fields 2024 5 18 = Some 1718668800000"
    by (simp add: Date_of_fields_def MakeDay_def DayFromYear_def DaysInYear_def monthStarts_def
          TimeClip_def msPerDay_def)
  have w: "weekNumber (Some 1718668800000) (Some 1710979200000) = Some 13"
    by (simp add: weekNumber_int)
  have v: "\<bar>1718668800000 :: int\<bar> \<le> 8640000000000000"
    "\<bar>1710979200000 :: int\<bar> \<le> 8640000000000000"
    "\<bar>1718668800000 - 1710979200000 :: int\<bar> \<le> 2 ^ 53"
    by simp_all
  show ?thesis
    using getShamsiWeekNumber_value [OF v]
    by (simp add: date_2024_03_21 d3 w Number_toString_def natToString.simps ascii_def)
qed

end
